theory Spec2Isabelle
  imports Main "HOL-Library.Char_ord" "HOL-Library.List_Lexorder" "HOL-Library.AList"
begin

section \<open>Values, errors and field metadata\<close>

text \<open>
  Go's \<^verbatim>\<open>interface{}\<close> values that end up as bound SQL parameters. \<open>VTime n\<close> is the
  result of the \<open>n\<close>-th reading of the clock.
\<close>

datatype val = VNil | VStr string | VInt int | VBool bool | VTime nat

text \<open>\<^verbatim>\<open>errors.New(msg)\<close>, and the errors that the database driver reports.\<close>

datatype error = ErrorString string

text \<open>
  What the code reads of a \<^verbatim>\<open>*gorm.Field\<close>: \<open>Struct_Name\<close> is \<^verbatim>\<open>field.Struct.Name\<close>,
  \<open>Name\<close> is \<^verbatim>\<open>field.Name\<close>, \<open>Relationship\<close> is \<^verbatim>\<open>field.StructField.Relationship\<close>
  (\<open>None\<close> for the nil pointer, otherwise the kind of the relationship), \<open>TagSettings\<close>
  is the table behind \<^verbatim>\<open>TagSettingsGet\<close>, and \<open>Interface\<close> is \<^verbatim>\<open>field.Field.Interface()\<close>.
\<close>

record field =
  Struct_Name :: string
  Name :: string
  DBName :: string
  IsPrimaryKey :: bool
  IsIgnored :: bool
  IsBlank :: bool
  HasDefaultValue :: bool
  Relationship :: "string option"
  TagSettings :: "(string \<times> string) list"
  Interface :: val

definition TagSettingsGet :: "field \<Rightarrow> string \<Rightarrow> string option" where
  "TagSettingsGet f key = map_of (TagSettings f) key"

text \<open>
  A value handed to the bulk insert: a struct, with its table name and the fields that
  \<^verbatim>\<open>(&gorm.Scope{Value: value}).Fields()\<close> enumerates, or a value of any other kind.
\<close>

datatype object = Struct string "field list" | NonStruct val

text \<open>
  The collaborators outside the repository: the clock (\<open>timeNow n\<close> is what the \<open>n\<close>-th call
  of \<^verbatim>\<open>time.Now()\<close> returns), \<^verbatim>\<open>gorm.ToColumnName\<close>, \<^verbatim>\<open>Scope.QuotedTableName\<close>,
  \<^verbatim>\<open>Scope.Raw\<close> (which stores the text it is given, possibly rewritten, as the scope's SQL),
  and \<^verbatim>\<open>db.Exec(...).Error\<close>, which may depend on the statements run before.
\<close>

record env =
  timeNow :: "nat \<Rightarrow> val"
  ToColumnName :: "string \<Rightarrow> string"
  QuotedTableName :: "object \<Rightarrow> string"
  Raw :: "string \<Rightarrow> string"
  Exec :: "(string \<times> val list) list \<Rightarrow> string \<Rightarrow> val list \<Rightarrow> error option"

text \<open>
  The state the code changes: how often the clock has been read, and the statements
  handed to \<^verbatim>\<open>db.Exec\<close>, oldest first.
\<close>

record world =
  clockReads :: nat
  execLog :: "(string \<times> val list) list"

section \<open>Helpers of package bulk\_insert\<close>

text \<open>
  Modelled from the spec: \<^verbatim>\<open>containString\<close> is called by \<^verbatim>\<open>extractMapValue\<close> but its
  definition is not among the sources. The spec: a field is dropped if ``its name is in
  \<^verbatim>\<open>excludedColumns\<close>''.
\<close>

definition containString :: "string list \<Rightarrow> string \<Rightarrow> bool" where
  "containString s v \<longleftrightarrow> v \<in> set s"

text \<open>
  Modelled from the spec: \<^verbatim>\<open>sortedKeys\<close> is called by \<^verbatim>\<open>insertObjSet\<close> but its
  definition is not among the sources. The spec: the keys of the mapping, sorted
  ``lexicographically (deterministic, independent of field declaration order)''.
  Strings are byte sequences, compared byte by byte.
\<close>

definition sortedKeys :: "(string \<times> val) list \<Rightarrow> string list" where
  "sortedKeys attrs = sort (map fst attrs)"

section \<open>extractMapValue\<close>

text \<open>
  A \<^verbatim>\<open>map[string]interface{}\<close> is an association list with one entry per key;
  \<^verbatim>\<open>attrs[k] = v\<close> is \<open>AList.update k v attrs\<close> and \<^verbatim>\<open>len(attrs)\<close> is its length.
  Reading a key that is absent gives the nil interface.
\<close>

definition index :: "(string \<times> val) list \<Rightarrow> string \<Rightarrow> val" where
  "index attrs key = (case map_of attrs key of Some v \<Rightarrow> v | None \<Rightarrow> VNil)"

text \<open>The condition of lines 155-156 under which a field enters the mapping.\<close>

definition passes :: "string list \<Rightarrow> field \<Rightarrow> bool" where
  "passes excludeColumns f \<longleftrightarrow>
     \<not> containString excludeColumns (Struct_Name f) \<and> Relationship f = None \<and>
     TagSettingsGet f ''FOREIGNKEY'' = None \<and>
     \<not> IsIgnored f \<and> \<not> (DBName f = ''id'' \<and> IsPrimaryKey f)"

text \<open>The value stored for a field that passes (lines 157-168), with the clock threaded.\<close>

definition fieldValue :: "env \<Rightarrow> field \<Rightarrow> nat \<Rightarrow> val \<times> nat" where
  "fieldValue e f c =
     (if Struct_Name f = ''CreatedAt'' \<or> Struct_Name f = ''UpdatedAt'' then (timeNow e c, Suc c)
      else if HasDefaultValue f \<and> IsBlank f then
        (case TagSettingsGet f ''DEFAULT'' of
           Some v \<Rightarrow> (VStr v, c)
         | None \<Rightarrow> (Interface f, c))
      else (Interface f, c))"

text \<open>The loop over the fields (lines 151-170).\<close>

fun extractFields ::
  "env \<Rightarrow> string list \<Rightarrow> field list \<Rightarrow> (string \<times> val) list \<times> nat \<Rightarrow> (string \<times> val) list \<times> nat"
where
  "extractFields e excludeColumns [] (attrs, c) = (attrs, c)"
| "extractFields e excludeColumns (f # fs) (attrs, c) =
     (if passes excludeColumns f then
        (case fieldValue e f c of
           (v, c') \<Rightarrow> extractFields e excludeColumns fs (AList.update (DBName f) v attrs, c'))
      else extractFields e excludeColumns fs (attrs, c))"

definition extractMapValue ::
  "env \<Rightarrow> object \<Rightarrow> string list \<Rightarrow> nat \<Rightarrow> (error + (string \<times> val) list) \<times> nat"
where
  "extractMapValue e v excludeColumns c =
     (case v of
        NonStruct _ \<Rightarrow> (Inl (ErrorString ''value must be kind of Struct''), c)
      | Struct _ fs \<Rightarrow>
          (case extractFields e excludeColumns fs ([], c) of
             (attrs, c') \<Rightarrow> (Inr attrs, c')))"

section \<open>insertObjSet\<close>

text \<open>\<^verbatim>\<open>strings.Join(elems, sep)\<close>.\<close>

fun Join :: "string list \<Rightarrow> string \<Rightarrow> string" where
  "Join [] sep = []"
| "Join [x] sep = x"
| "Join (x # y # ys) sep = x @ sep @ Join (y # ys) sep"

text \<open>
  The loop over the objects of one chunk (lines 101-126). \<open>placeholders\<close> and \<open>SQLVars\<close>
  are the two accumulators (\<^verbatim>\<open>mainScope.SQLVars\<close> for the second). For each object a
  fresh scope collects the values: \<^verbatim>\<open>AddToVars\<close> appends its argument to the scope's
  variables, so after the inner loop the scope holds the values of the object's mapping
  in the order of the object's own sorted keys.
\<close>

fun rows ::
  "env \<Rightarrow> string list \<Rightarrow> nat \<Rightarrow> object list \<Rightarrow> string list \<times> val list \<Rightarrow> nat \<Rightarrow>
   (error + string list \<times> val list) \<times> nat"
where
  "rows e excludeColumns attrSize [] (placeholders, SQLVars) c = (Inr (placeholders, SQLVars), c)"
| "rows e excludeColumns attrSize (obj # objs) (placeholders, SQLVars) c =
     (case extractMapValue e obj excludeColumns c of
        (Inl err, c') \<Rightarrow> (Inl err, c')
      | (Inr objAttrs, c') \<Rightarrow>
          if length objAttrs \<noteq> attrSize
          then (Inl (ErrorString ''attribute sizes are inconsistent''), c')
          else
            let scopeVars = map (index objAttrs) (sortedKeys objAttrs);
                variables = map (\<lambda>key. ''?'') (sortedKeys objAttrs);
                valueQuery = ''('' @ Join variables '', '' @ '')''
            in rows e excludeColumns attrSize objs
                 (placeholders @ [valueQuery], SQLVars @ scopeVars) c')"

text \<open>The text given to \<^verbatim>\<open>mainScope.Raw\<close> (lines 128-138).\<close>

definition statementText :: "bool \<Rightarrow> string \<Rightarrow> string list \<Rightarrow> string list \<Rightarrow> string" where
  "statementText replace table dbColumns placeholders =
     (if replace then ''REPLACE'' else ''INSERT'') @ '' INTO '' @ table @ '' ('' @
     Join dbColumns '', '' @ '') VALUES '' @ Join placeholders '', ''"

definition insertObjSet ::
  "env \<Rightarrow> world \<Rightarrow> object list \<Rightarrow> bool \<Rightarrow> string list \<Rightarrow> error option \<times> world"
where
  "insertObjSet e w objects replace excludeColumns =
     (case objects of
        [] \<Rightarrow> (None, w)
      | first # _ \<Rightarrow>
          (case extractMapValue e first excludeColumns (clockReads w) of
             (Inl err, c1) \<Rightarrow> (Some err, w\<lparr>clockReads := c1\<rparr>)
           | (Inr firstAttrs, c1) \<Rightarrow>
               let attrSize = length firstAttrs;
                   dbColumns = map (ToColumnName e) (sortedKeys firstAttrs)
               in (case rows e excludeColumns attrSize objects ([], []) c1 of
                     (Inl err, c2) \<Rightarrow> (Some err, w\<lparr>clockReads := c2\<rparr>)
                   | (Inr (placeholders, SQLVars), c2) \<Rightarrow>
                       let SQL = Raw e (statementText replace (QuotedTableName e first)
                                          dbColumns placeholders)
                       in (Exec e (execLog w) SQL SQLVars,
                           w\<lparr>clockReads := c2, execLog := execLog w @ [(SQL, SQLVars)]\<rparr>))))"

section \<open>BulkInsert\<close>

text \<open>
  Modelled from the spec: a list cut into contiguous pieces of \<open>n\<close> elements, the last
  one with what is left (``partition \<^verbatim>\<open>records\<close> into contiguous chunks of at most
  \<^verbatim>\<open>chunkSize\<close>'', ``all batches together partition the input exactly'', 5 records with
  chunk size 2 give batches of sizes 2, 2, 1). The test for \<open>n = 0\<close> is there for
  termination and is never reached from \<open>splitObjects\<close>.
\<close>

function chunks :: "nat \<Rightarrow> 'a list \<Rightarrow> 'a list list" where
  "chunks n xs = (if n = 0 \<or> xs = [] then [] else take n xs # chunks n (drop n xs))"
  by pat_completeness auto
termination
  by (relation "measure (\<lambda>(n, xs). length xs)") auto

declare chunks.simps [simp del]

text \<open>
  Modelled from the spec: \<^verbatim>\<open>splitObjects\<close> is called by \<^verbatim>\<open>BulkInsert\<close> but its
  definition is not among the sources. The spec: the chunks above for a positive chunk size;
  a zero or negative chunk size ``is a configuration error'', for which the spec fixes no
  result: \<open>None\<close> here.
\<close>

definition splitObjects :: "'a list \<Rightarrow> int \<Rightarrow> 'a list list option" where
  "splitObjects objArr n = (if n \<le> 0 then None else Some (chunks (nat n) objArr))"

text \<open>The argument \<^verbatim>\<open>objects interface{}\<close>: a slice, or a value of another kind.\<close>

datatype objects = Slice "object list" | NoSlice val

text \<open>The loop over the chunks (lines 70-75).\<close>

fun insertAll ::
  "env \<Rightarrow> world \<Rightarrow> object list list \<Rightarrow> bool \<Rightarrow> string list \<Rightarrow> error option \<times> world"
where
  "insertAll e w [] replace excludeColumns = (None, w)"
| "insertAll e w (objSet # rest) replace excludeColumns =
     (case insertObjSet e w objSet replace excludeColumns of
        (Some err, w') \<Rightarrow> (Some err, w')
      | (None, w') \<Rightarrow> insertAll e w' rest replace excludeColumns)"

text \<open>\<open>None\<close>: the chunk size is one for which the spec fixes no chunking.\<close>

definition BulkInsert ::
  "env \<Rightarrow> world \<Rightarrow> objects \<Rightarrow> int \<Rightarrow> bool \<Rightarrow> string list \<Rightarrow> (error option \<times> world) option"
where
  "BulkInsert e w objs chunkSize replace excludeColumns =
     (case objs of
        NoSlice _ \<Rightarrow> Some (Some (ErrorString ''objects must be a slice''), w)
      | Slice objectInterfaces \<Rightarrow>
          (case splitObjects objectInterfaces chunkSize of
             None \<Rightarrow> None
           | Some objSets \<Rightarrow> Some (insertAll e w objSets replace excludeColumns)))"

section \<open>The transaction guard\<close>

text \<open>
  The \<^verbatim>\<open>*gorm.DB\<close> inside a \<^verbatim>\<open>TX\<close>: the calls made on it, oldest first, and its
  \<^verbatim>\<open>Error\<close> field. What a call leaves in the \<^verbatim>\<open>Error\<close> field is the library's and the
  driver's business: the parameter \<open>drv\<close>.
\<close>

datatype call = BeginCall | CommitCall | RollbackCall

record session =
  calls :: "call list"
  Error :: "error option"

definition gormCall :: "(call \<Rightarrow> session \<Rightarrow> error option) \<Rightarrow> call \<Rightarrow> session \<Rightarrow> session" where
  "gormCall drv k s = \<lparr>calls = calls s @ [k], Error = drv k s\<rparr>"

record TX =
  DB :: session
  committed :: bool

definition Begin :: "(call \<Rightarrow> session \<Rightarrow> error option) \<Rightarrow> session \<Rightarrow> TX" where
  "Begin drv db = \<lparr>DB = gormCall drv BeginCall db, committed = False\<rparr>"

definition End :: "(call \<Rightarrow> session \<Rightarrow> error option) \<Rightarrow> TX \<Rightarrow> TX" where
  "End drv tx = (if \<not> committed tx then tx\<lparr>DB := gormCall drv RollbackCall (DB tx)\<rparr> else tx)"

text \<open>A call returns, or panics with a message.\<close>

datatype 'a outcome = Return 'a | Panic string

fun message :: "error \<Rightarrow> string" where
  "message (ErrorString s) = s"

definition Commit ::
  "(call \<Rightarrow> session \<Rightarrow> error option) \<Rightarrow> TX \<Rightarrow> bool list \<Rightarrow> error option outcome \<times> TX"
where
  "Commit drv tx noPanic =
     (let tx1 = tx\<lparr>DB := gormCall drv CommitCall (DB tx)\<rparr>
      in case Error (DB tx1) of
           Some err \<Rightarrow>
             if length noPanic > 0 \<and> noPanic ! 0 then (Return (Some err), tx1)
             else (Panic (message err), tx1)
         | None \<Rightarrow> (Return None, tx1\<lparr>committed := True\<rparr>))"

text \<open>The calls of \<^verbatim>\<open>Rollback\<close> made on a session.\<close>

definition rollbacks :: "session \<Rightarrow> nat" where
  "rollbacks s = length (filter (\<lambda>k. k = RollbackCall) (calls s))"

text \<open>
  What reaches the driver. The session's transaction is a \<^verbatim>\<open>sql.Tx\<close> of
  \<^verbatim>\<open>database/sql\<close>: once it has been committed or rolled back it is done, and it answers
  every further \<^verbatim>\<open>Commit\<close> or \<^verbatim>\<open>Rollback\<close> with \<^verbatim>\<open>ErrTxDone\<close> without sending anything
  to the driver; before any \<^verbatim>\<open>Begin\<close> there is no transaction to send to. \<^verbatim>\<open>Begin\<close> is
  taken to succeed. \<open>sqlTx\<close> replays the calls made on a session and gives the state of
  its transaction and the calls that were sent on.
\<close>

datatype txState = NoTx | Open | Done

fun sqlStep :: "txState \<times> call list \<Rightarrow> call \<Rightarrow> txState \<times> call list" where
  "sqlStep (st, sent) BeginCall = (Open, sent @ [BeginCall])"
| "sqlStep (st, sent) CommitCall =
     (if st = Open then (Done, sent @ [CommitCall]) else (st, sent))"
| "sqlStep (st, sent) RollbackCall =
     (if st = Open then (Done, sent @ [RollbackCall]) else (st, sent))"

definition sqlTx :: "session \<Rightarrow> txState \<times> call list" where
  "sqlTx s = foldl sqlStep (NoTx, []) (calls s)"

definition txState :: "session \<Rightarrow> txState" where
  "txState s = fst (sqlTx s)"


section \<open>The pre-create hook\<close>

text \<open>\<^verbatim>\<open>strings.HasSuffix(s, suffix)\<close>.\<close>

definition HasSuffix :: "string \<Rightarrow> string \<Rightarrow> bool" where
  "HasSuffix s suffix \<longleftrightarrow>
     length s \<ge> length suffix \<and> drop (length s - length suffix) s = suffix"

text \<open>
  What the hook reads of a \<^verbatim>\<open>*gorm.Scope\<close>: \<^verbatim>\<open>TableName()\<close>, \<^verbatim>\<open>PrimaryField()\<close>
  (\<open>None\<close> for nil) and \<^verbatim>\<open>HasColumn\<close>. What the hook does is a sequence of
  \<^verbatim>\<open>SetColumn\<close> calls. \<open>xid\<close> is the string that \<^verbatim>\<open>xid.New().String()\<close> returns and
  \<open>now\<close> the value of \<^verbatim>\<open>gorm.NowFunc()\<close>. The hook is the one of the latest
  \<^verbatim>\<open>Instantiate\<close> (the one with \<^verbatim>\<open>enableLog\<close>); the two earlier ones test
  \<^verbatim>\<open>HasColumn\<close> for \<^verbatim>\<open>ID\<close> instead of reading the primary field.
\<close>

record scope =
  TableName :: string
  PrimaryField :: "field option"
  HasColumn :: "string \<Rightarrow> bool"

datatype setColumn = SetColumn string val

definition beforeCreateCallback :: "string \<Rightarrow> val \<Rightarrow> scope \<Rightarrow> setColumn list" where
  "beforeCreateCallback xid now sc =
     (if \<not> HasSuffix (TableName sc) ''deleted'' then
        (case PrimaryField sc of
           Some pf \<Rightarrow>
             if (Name pf = ''ID'' \<or> DBName pf = ''ID'') \<and> IsBlank pf
             then [SetColumn ''ID'' (VStr xid)]
             else []
         | None \<Rightarrow> [])
      else
        (if HasColumn sc ''At'' then [SetColumn ''At'' now] else []))"

section \<open>Notions used in the statements\<close>

text \<open>
  The placeholder group of arity \<open>n\<close>, \<^verbatim>\<open>(?, ?, ..., ?)\<close>, and the values of one mapping
  in the order of its own sorted keys: what one round of the loop over the objects appends to
  \<open>placeholders\<close> and to \<open>SQLVars\<close>.
\<close>

definition placeholderGroup :: "nat \<Rightarrow> string" where
  "placeholderGroup n = ''('' @ Join (replicate n ''?'') '', '' @ '')''"

definition rowValues :: "(string \<times> val) list \<Rightarrow> val list" where
  "rowValues objAttrs = map (index objAttrs) (sortedKeys objAttrs)"

section \<open>Sample inputs\<close>

text \<open>
  A world where nothing has happened, an environment whose naming strategy is the identity
  (the one \<^verbatim>\<open>orm.Instantiate\<close> installs) and whose driver accepts every statement, and one
  whose driver accepts the first statement only.
\<close>

definition clock :: "nat \<Rightarrow> val" where
  "clock n = VTime n"

definition sameName :: "string \<Rightarrow> string" where
  "sameName name = name"

definition backquoted :: "object \<Rightarrow> string" where
  "backquoted obj = (case obj of Struct t fs \<Rightarrow> ''`'' @ t @ ''`'' | NonStruct v \<Rightarrow> [])"

definition sameText :: "string \<Rightarrow> string" where
  "sameText sql = sql"

definition execOk :: "(string \<times> val list) list \<Rightarrow> string \<Rightarrow> val list \<Rightarrow> error option" where
  "execOk log sql vars = None"

definition sampleEnv :: env where
  "sampleEnv = \<lparr>timeNow = clock, ToColumnName = sameName, QuotedTableName = backquoted,
     Raw = sameText, Exec = execOk\<rparr>"

definition execOnce :: "(string \<times> val list) list \<Rightarrow> string \<Rightarrow> val list \<Rightarrow> error option" where
  "execOnce log sql vars = (if log = [] then None else Some (ErrorString ''driver: bad connection''))"

definition flakyEnv :: env where
  "flakyEnv = \<lparr>timeNow = clock, ToColumnName = sameName, QuotedTableName = backquoted,
     Raw = sameText, Exec = execOnce\<rparr>"

definition column :: "string \<Rightarrow> val \<Rightarrow> field" where
  "column name v = \<lparr>Struct_Name = name, Name = name, DBName = name, IsPrimaryKey = False,
     IsIgnored = False, IsBlank = False, HasDefaultValue = False, Relationship = None,
     TagSettings = [], Interface = v\<rparr>"

definition startWorld :: world where
  "startWorld = \<lparr>clockReads = 0, execLog = []\<rparr>"

definition person :: "string \<Rightarrow> int \<Rightarrow> object" where
  "person name age = Struct ''users'' [column ''name'' (VStr name), column ''age'' (VInt age)]"

definition single :: "string \<Rightarrow> int \<Rightarrow> object" where
  "single key n = Struct ''tags'' [column key (VInt n)]"

definition pair :: "string \<Rightarrow> int \<Rightarrow> string \<Rightarrow> int \<Rightarrow> object" where
  "pair k1 n1 k2 n2 = Struct ''pairs'' [column k1 (VInt n1), column k2 (VInt n2)]"

definition user :: "string \<Rightarrow> string \<Rightarrow> object" where
  "user name email = Struct ''users'' [column ''name'' (VStr name), column ''email'' (VStr email)]"

definition product :: "string \<Rightarrow> int \<Rightarrow> object" where
  "product name price = Struct ''products'' [column ''name'' (VStr name), column ''price'' (VInt price)]"

definition fivePeople :: "object list" where
  "fivePeople = [person ''ann'' 30, person ''bob'' 25, person ''cy'' 41, person ''di'' 19,
     person ''ed'' 52]"

definition accountFields :: "field list" where
  "accountFields =
     [(column ''id'' (VInt 7))\<lparr>IsPrimaryKey := True\<rparr>,
      column ''name'' (VStr ''ann''),
      column ''age'' (VInt 30),
      (column ''secret'' (VStr ''s3''))\<lparr>IsIgnored := True\<rparr>,
      (column ''profile'' VNil)\<lparr>Relationship := Some ''has_one''\<rparr>,
      (column ''owner'' VNil)\<lparr>TagSettings := [(''FOREIGNKEY'', ''OwnerID'')]\<rparr>,
      column ''CreatedAt'' VNil]"

text \<open>A driver that never fails, and one whose commit fails.\<close>

definition quietDriver :: "call \<Rightarrow> session \<Rightarrow> error option" where
  "quietDriver k s = None"

definition failingDriver :: "call \<Rightarrow> session \<Rightarrow> error option" where
  "failingDriver k s =
     (if k = CommitCall then Some (ErrorString ''driver: bad connection'') else Error s)"

definition freshSession :: session where
  "freshSession = \<lparr>calls = [], Error = None\<rparr>"

text \<open>A primary key named \<^verbatim>\<open>Key\<close>, the \<^verbatim>\<open>ID\<close> of \<^verbatim>\<open>orm.Model\<close>, and a scope around one.\<close>

definition noColumn :: "string \<Rightarrow> bool" where
  "noColumn name = False"

definition keyField :: field where
  "keyField = \<lparr>Struct_Name = ''Key'', Name = ''Key'', DBName = ''key'', IsPrimaryKey = True,
     IsIgnored = False, IsBlank = True, HasDefaultValue = False, Relationship = None,
     TagSettings = [(''PRIMARY_KEY'', ''PRIMARY_KEY'')], Interface = VStr []\<rparr>"

definition idField :: "string \<Rightarrow> field" where
  "idField v = \<lparr>Struct_Name = ''ID'', Name = ''ID'', DBName = ''ID'', IsPrimaryKey = True,
     IsIgnored = False, IsBlank = (v = []), HasDefaultValue = False, Relationship = None,
     TagSettings = [(''PRIMARY_KEY'', ''PRIMARY_KEY''), (''SIZE'', ''20'')], Interface = VStr v\<rparr>"

definition tableOf :: "string \<Rightarrow> field \<Rightarrow> scope" where
  "tableOf name pf = \<lparr>TableName = name, PrimaryField = Some pf, HasColumn = noColumn\<rparr>"

text \<open>The definitions that running \<^verbatim>\<open>insertObjSet\<close> on a sample input unfolds.\<close>

lemmas run_defs = insertObjSet_def extractMapValue_def passes_def fieldValue_def
  containString_def TagSettingsGet_def sortedKeys_def index_def statementText_def Let_def
  rows.simps sampleEnv_def column_def startWorld_def clock_def sameName_def backquoted_def
  sameText_def execOk_def

section \<open>extractMapValue: properties\<close>

lemma extractFields_keys:
  "fst ` set (fst (extractFields e ex fs (attrs, c))) =
     fst ` set attrs \<union> DBName ` {f \<in> set fs. passes ex f}"
proof (induction fs arbitrary: attrs c)
  case Nil
  then show ?case by simp
next
  case (Cons f fs)
  show ?case
  proof (cases "passes ex f")
    case True
    obtain v c' where fv: "fieldValue e f c = (v, c')" by (cases "fieldValue e f c")
    have "fst ` set (AList.update (DBName f) v attrs) = insert (DBName f) (fst ` set attrs)"
      by (simp add: dom_update)
    with True fv Cons.IH [of "AList.update (DBName f) v attrs" c'] show ?thesis
      by auto
  next
    case False
    with Cons.IH [of attrs c] show ?thesis by auto
  qed
qed

lemma extractFields_distinct:
  "distinct (map fst attrs) \<Longrightarrow> distinct (map fst (fst (extractFields e ex fs (attrs, c))))"
proof (induction fs arbitrary: attrs c)
  case Nil
  then show ?case by simp
next
  case (Cons f fs)
  show ?case
  proof (cases "passes ex f")
    case True
    obtain v c' where fv: "fieldValue e f c = (v, c')" by (cases "fieldValue e f c")
    from Cons.prems have "distinct (map fst (AList.update (DBName f) v attrs))"
      by (simp add: distinct_update)
    from Cons.IH [OF this, of c'] True fv show ?thesis by simp
  next
    case False
    with Cons show ?thesis by simp
  qed
qed

lemma extractFields_same_keys:
  "map fst attrs = map fst attrs' \<Longrightarrow>
   map fst (fst (extractFields e ex fs (attrs, c))) =
   map fst (fst (extractFields e' ex fs (attrs', c')))"
proof (induction fs arbitrary: attrs attrs' c c')
  case Nil
  then show ?case by simp
next
  case (Cons f fs)
  show ?case
  proof (cases "passes ex f")
    case True
    obtain v d where fv: "fieldValue e f c = (v, d)" by (cases "fieldValue e f c")
    obtain v' d' where fv': "fieldValue e' f c' = (v', d')" by (cases "fieldValue e' f c'")
    from Cons.prems
    have "map fst (AList.update (DBName f) v attrs) = map fst (AList.update (DBName f) v' attrs')"
      by (metis update_keys)
    from Cons.IH [OF this] True fv fv' show ?thesis by simp
  next
    case False
    with Cons show ?thesis by simp
  qed
qed

lemma extractMapValue_Struct:
  "\<exists>attrs c'. extractMapValue e (Struct t fs) ex c = (Inr attrs, c')"
  by (simp add: extractMapValue_def split: prod.splits)

text \<open>
  C2, amended: for a struct and any excluded columns, a field that meets none of the four
  conditions (its name is excluded; it is a relationship or carries a foreign-key tag; it is
  ignored; its column name is exactly \<^verbatim>\<open>id\<close> and it is flagged as primary key) has its
  column in the mapping, every key of the mapping is the column of such a field, and when no
  two fields share a column, a field's column is missing from the mapping exactly when the
  field meets one of the four.
\<close>

theorem extractMapValue_drops:
  "\<exists>attrs c'. extractMapValue e (Struct t fs) excludeColumns c = (Inr attrs, c') \<and>
     (\<forall>f \<in> set fs.
        \<not> (Struct_Name f \<in> set excludeColumns \<or>
           (Relationship f \<noteq> None \<or> TagSettingsGet f ''FOREIGNKEY'' \<noteq> None) \<or>
           IsIgnored f \<or>
           (DBName f = ''id'' \<and> IsPrimaryKey f)) \<longrightarrow>
        DBName f \<in> fst ` set attrs) \<and>
     (\<forall>key \<in> fst ` set attrs. \<exists>f \<in> set fs. DBName f = key \<and>
        \<not> (Struct_Name f \<in> set excludeColumns \<or>
           (Relationship f \<noteq> None \<or> TagSettingsGet f ''FOREIGNKEY'' \<noteq> None) \<or>
           IsIgnored f \<or>
           (DBName f = ''id'' \<and> IsPrimaryKey f))) \<and>
     (distinct (map DBName fs) \<longrightarrow>
        (\<forall>f \<in> set fs. DBName f \<notin> fst ` set attrs \<longleftrightarrow>
           Struct_Name f \<in> set excludeColumns \<or>
           (Relationship f \<noteq> None \<or> TagSettingsGet f ''FOREIGNKEY'' \<noteq> None) \<or>
           IsIgnored f \<or>
           (DBName f = ''id'' \<and> IsPrimaryKey f)))"
proof -
  obtain attrs c' where ex: "extractMapValue e (Struct t fs) excludeColumns c = (Inr attrs, c')"
    using extractMapValue_Struct by blast
  then have attrs: "attrs = fst (extractFields e excludeColumns fs ([], c))"
    by (simp add: extractMapValue_def split: prod.splits)
  have keys: "fst ` set attrs = DBName ` {f \<in> set fs. passes excludeColumns f}"
    unfolding attrs by (simp add: extractFields_keys)
  have p: "\<And>f. passes excludeColumns f \<longleftrightarrow>
            \<not> (Struct_Name f \<in> set excludeColumns \<or>
               (Relationship f \<noteq> None \<or> TagSettingsGet f ''FOREIGNKEY'' \<noteq> None) \<or>
               IsIgnored f \<or>
               (DBName f = ''id'' \<and> IsPrimaryKey f))"
    by (auto simp: passes_def containString_def)
  have inj: "f = g"
    if "distinct (map DBName fs)" "f \<in> set fs" "g \<in> set fs" "DBName f = DBName g" for f g
    using that by (meson distinct_map inj_onD)
  have a: "\<forall>f \<in> set fs. passes excludeColumns f \<longrightarrow> DBName f \<in> fst ` set attrs"
    unfolding keys by blast
  have b: "\<forall>key \<in> fst ` set attrs. \<exists>f \<in> set fs. DBName f = key \<and> passes excludeColumns f"
    unfolding keys by blast
  have c: "distinct (map DBName fs) \<longrightarrow>
             (\<forall>f \<in> set fs. DBName f \<notin> fst ` set attrs \<longleftrightarrow> \<not> passes excludeColumns f)"
    unfolding keys using inj by blast
  from a b c have
    "(\<forall>f \<in> set fs.
        \<not> (Struct_Name f \<in> set excludeColumns \<or>
           (Relationship f \<noteq> None \<or> TagSettingsGet f ''FOREIGNKEY'' \<noteq> None) \<or>
           IsIgnored f \<or>
           (DBName f = ''id'' \<and> IsPrimaryKey f)) \<longrightarrow>
        DBName f \<in> fst ` set attrs) \<and>
     (\<forall>key \<in> fst ` set attrs. \<exists>f \<in> set fs. DBName f = key \<and>
        \<not> (Struct_Name f \<in> set excludeColumns \<or>
           (Relationship f \<noteq> None \<or> TagSettingsGet f ''FOREIGNKEY'' \<noteq> None) \<or>
           IsIgnored f \<or>
           (DBName f = ''id'' \<and> IsPrimaryKey f))) \<and>
     (distinct (map DBName fs) \<longrightarrow>
        (\<forall>f \<in> set fs. DBName f \<notin> fst ` set attrs \<longleftrightarrow>
           Struct_Name f \<in> set excludeColumns \<or>
           (Relationship f \<noteq> None \<or> TagSettingsGet f ''FOREIGNKEY'' \<noteq> None) \<or>
           IsIgnored f \<or>
           (DBName f = ''id'' \<and> IsPrimaryKey f)))"
    by (simp add: p)
  with ex show ?thesis by blast
qed

theorem extractMapValue_drops_witness:
  "extractMapValue sampleEnv (Struct ''accounts'' accountFields) [''age''] 0 =
     (Inr [(''name'', VStr ''ann''), (''CreatedAt'', VTime 0)], 1) \<and>
   distinct (map DBName accountFields) \<and>
   fst ` set [(''name'', VStr ''ann''), (''CreatedAt'', VTime 0)] = {''name'', ''CreatedAt''}"
proof -
  have h: "extractMapValue sampleEnv (Struct ''accounts'' accountFields) [''age''] 0 =
     (Inr [(''name'', VStr ''ann''), (''CreatedAt'', VTime 0)], 1)"
    by (simp add: accountFields_def run_defs)
  from extractMapValue_drops [of sampleEnv "''accounts''" accountFields "[''age'']" 0] h
  show ?thesis
    by (simp add: accountFields_def column_def)
qed

text \<open>
  C2, as stated, drops every field that is the primary-key column and flagged as primary.
  The test is on the column name \<^verbatim>\<open>id\<close>: the primary key \<^verbatim>\<open>ID\<close> of \<^verbatim>\<open>orm.Model\<close>, whose
  column is \<^verbatim>\<open>ID\<close> under the naming strategy of \<^verbatim>\<open>Instantiate\<close>, stays in the mapping.
\<close>

theorem primary_key_ID_counterexample:
  "IsPrimaryKey (idField ''c1'') \<and>
   extractMapValue sampleEnv
     (Struct ''model'' [idField ''c1'', column ''name'' (VStr ''ann'')]) [] 0 =
     (Inr [(''ID'', VStr ''c1''), (''name'', VStr ''ann'')], 0)"
  by (simp add: idField_def run_defs)

section \<open>insertObjSet: properties\<close>

lemma length_sortedKeys [simp]: "length (sortedKeys m) = length m"
  by (simp add: sortedKeys_def)

lemma length_rowValues [simp]: "length (rowValues m) = length m"
  by (simp add: rowValues_def)

lemma map_const_replicate: "map (\<lambda>key. x) ks = replicate (length ks) x"
  by (induction ks) simp_all

lemma rows_Cons_Inr:
  assumes "extractMapValue e obj ex c = (Inr m, c')" and "length m = n"
  shows "rows e ex n (obj # objs) (ph, vars) c =
           rows e ex n objs (ph @ [placeholderGroup n], vars @ rowValues m) c'"
  using assms by (simp add: placeholderGroup_def rowValues_def map_const_replicate Let_def)

lemma rows_Cons_mismatch:
  assumes "extractMapValue e obj ex c = (Inr m, c')" and "length m \<noteq> n"
  shows "rows e ex n (obj # objs) (ph, vars) c =
           (Inl (ErrorString ''attribute sizes are inconsistent''), c')"
  using assms by simp

lemma rows_Cons_Inl:
  assumes "extractMapValue e obj ex c = (Inl err, c')"
  shows "rows e ex n (obj # objs) (ph, vars) c = (Inl err, c')"
  using assms by simp

lemma rows_Inr_D:
  "rows e ex n objs (ph, vars) c = (Inr (ph', vars'), c') \<Longrightarrow>
   \<exists>ms. list_all2 (\<lambda>obj m. \<exists>d d'. extractMapValue e obj ex d = (Inr m, d')) objs ms \<and>
        (\<forall>m \<in> set ms. length m = n) \<and>
        ph' = ph @ replicate (length objs) (placeholderGroup n) \<and>
        vars' = vars @ concat (map rowValues ms)"
proof (induction objs arbitrary: ph vars c)
  case Nil
  then show ?case by simp
next
  case (Cons obj objs)
  obtain r d where ex: "extractMapValue e obj ex c = (r, d)"
    by (cases "extractMapValue e obj ex c")
  show ?case
  proof (cases r)
    case (Inl err)
    with ex Cons.prems show ?thesis by (simp add: rows_Cons_Inl)
  next
    case (Inr m)
    show ?thesis
    proof (cases "length m = n")
      case False
      with ex Inr Cons.prems show ?thesis by (simp add: rows_Cons_mismatch)
    next
      case True
      from ex Inr have "extractMapValue e obj ex c = (Inr m, d)" by simp
      from rows_Cons_Inr [OF this True] Cons.prems
      have "rows e ex n objs (ph @ [placeholderGroup n], vars @ rowValues m) d = (Inr (ph', vars'), c')"
        by simp
      from Cons.IH [OF this] obtain ms where
        ms: "list_all2 (\<lambda>obj m. \<exists>d d'. extractMapValue e obj ex d = (Inr m, d')) objs ms"
          "\<forall>m \<in> set ms. length m = n"
          "ph' = (ph @ [placeholderGroup n]) @ replicate (length objs) (placeholderGroup n)"
          "vars' = (vars @ rowValues m) @ concat (map rowValues ms)"
        by blast
      have "list_all2 (\<lambda>obj m. \<exists>d d'. extractMapValue e obj ex d = (Inr m, d')) (obj # objs) (m # ms)"
        using ms(1) ex Inr by auto
      moreover have "\<forall>m' \<in> set (m # ms). length m' = n"
        using ms(2) True by simp
      moreover have "ph' = ph @ replicate (length (obj # objs)) (placeholderGroup n)"
        using ms(3) by (simp add: replicate_append_same)
      moreover have "vars' = vars @ concat (map rowValues (m # ms))"
        using ms(4) by simp
      ultimately show ?thesis by blast
    qed
  qed
qed

lemma rows_Inr_I:
  "\<forall>obj \<in> set objs. \<forall>d. \<exists>m d'. extractMapValue e obj ex d = (Inr m, d') \<and> length m = n \<Longrightarrow>
   \<exists>ph' vars' c'. rows e ex n objs (ph, vars) c = (Inr (ph', vars'), c')"
proof (induction objs arbitrary: ph vars c)
  case Nil
  then show ?case by simp
next
  case (Cons obj objs)
  from Cons.prems obtain m d' where m: "extractMapValue e obj ex c = (Inr m, d')" "length m = n"
    by (metis list.set_intros(1))
  from Cons.prems have "\<forall>obj \<in> set objs. \<forall>d. \<exists>m d'. extractMapValue e obj ex d = (Inr m, d') \<and> length m = n"
    by simp
  from Cons.IH [OF this] m show ?case
    by (simp only: rows_Cons_Inr [OF m])
qed

lemma extractMapValue_same_keys:
  assumes "extractMapValue e obj ex c = (Inr m, c')" and "extractMapValue e' obj ex d = (Inr m', d')"
  shows "map fst m = map fst m'"
proof (cases obj)
  case (Struct t fs)
  with assms have "m = fst (extractFields e ex fs ([], c))" "m' = fst (extractFields e' ex fs ([], d))"
    by (simp_all add: extractMapValue_def split: prod.splits)
  then show ?thesis
    using extractFields_same_keys [of "[]" "[]" e ex fs c e' d] by simp
next
  case (NonStruct x)
  with assms show ?thesis by (simp add: extractMapValue_def)
qed

lemma extractMapValue_distinct:
  assumes "extractMapValue e obj ex c = (Inr m, c')"
  shows "distinct (map fst m)"
proof (cases obj)
  case (Struct t fs)
  with assms have "m = fst (extractFields e ex fs ([], c))"
    by (simp add: extractMapValue_def split: prod.splits)
  then show ?thesis
    using extractFields_distinct [of "[]" e ex fs c] by simp
next
  case (NonStruct x)
  with assms show ?thesis by (simp add: extractMapValue_def)
qed

lemma sortedKeys_same_set:
  assumes "distinct (map fst m)" and "distinct (map fst m')" and "fst ` set m = fst ` set m'"
  shows "sortedKeys m = sortedKeys m'"
proof -
  have "sorted_list_of_set (set (map fst m)) = sort (remdups (map fst m))"
    by (rule sorted_list_of_set_sort_remdups)
  moreover have "sorted_list_of_set (set (map fst m')) = sort (remdups (map fst m'))"
    by (rule sorted_list_of_set_sort_remdups)
  moreover have "set (map fst m) = set (map fst m')"
    using assms(3) by simp
  ultimately have "sort (remdups (map fst m)) = sort (remdups (map fst m'))"
    by simp
  with assms(1,2) show ?thesis
    by (simp add: sortedKeys_def distinct_remdups_id)
qed

lemma count_Join:
  "count_list (Join xs sep) ch =
     sum_list (map (\<lambda>x. count_list x ch) xs) + (length xs - 1) * count_list sep ch"
  by (induction xs sep rule: Join.induct) simp_all

lemma count_placeholderGroup: "count_list (placeholderGroup n) CHR ''?'' = n"
  by (simp add: placeholderGroup_def count_Join sum_list_replicate)

lemma count_placeholders:
  "count_list (Join (replicate N (placeholderGroup C)) '', '') CHR ''?'' = N * C"
  by (simp add: count_Join count_placeholderGroup sum_list_replicate)

lemma length_concat_rowValues:
  "\<forall>m \<in> set ms. length m = n \<Longrightarrow> length (concat (map rowValues ms)) = length ms * n"
  by (induction ms) simp_all

lemma insertObjSet_built:
  assumes "extractMapValue e first ex (clockReads w) = (Inr firstAttrs, c1)"
    and "rows e ex (length firstAttrs) (first # rest) ([], []) c1 = (Inr (ph, vars), c2)"
  shows "insertObjSet e w (first # rest) replace ex =
           (Exec e (execLog w)
              (Raw e (statementText replace (QuotedTableName e first)
                 (map (ToColumnName e) (sortedKeys firstAttrs)) ph)) vars,
            w\<lparr>clockReads := c2,
              execLog := execLog w @
                [(Raw e (statementText replace (QuotedTableName e first)
                    (map (ToColumnName e) (sortedKeys firstAttrs)) ph), vars)]\<rparr>)"
  using assms by (simp add: insertObjSet_def Let_def del: rows.simps)

lemma insertObjSet_not_built:
  assumes "extractMapValue e first ex (clockReads w) = (Inr firstAttrs, c1)"
    and "rows e ex (length firstAttrs) (first # rest) ([], []) c1 = (Inl err, c2)"
  shows "insertObjSet e w (first # rest) replace ex = (Some err, w\<lparr>clockReads := c2\<rparr>)"
  using assms by (simp add: insertObjSet_def Let_def del: rows.simps)

lemma insertObjSet_first_Inl:
  assumes "extractMapValue e first ex (clockReads w) = (Inl err, c1)"
  shows "insertObjSet e w (first # rest) replace ex = (Some err, w\<lparr>clockReads := c1\<rparr>)"
  using assms by (simp add: insertObjSet_def)

lemma insertObjSet_Nil: "insertObjSet e w [] replace ex = (None, w)"
  by (simp add: insertObjSet_def)

lemma insertObjSet_ran:
  assumes "insertObjSet e w objects replace ex = (r, w')" and "execLog w' \<noteq> execLog w"
  shows "\<exists>first rest firstAttrs c1 ph vars c2. objects = first # rest \<and>
      extractMapValue e first ex (clockReads w) = (Inr firstAttrs, c1) \<and>
      rows e ex (length firstAttrs) (first # rest) ([], []) c1 = (Inr (ph, vars), c2)"
proof (cases objects)
  case Nil
  with assms(1) have "w' = w" by (simp add: insertObjSet_Nil)
  with assms(2) have False by simp
  then show ?thesis ..
next
  case (Cons first rest)
  obtain x c1 where ex: "extractMapValue e first ex (clockReads w) = (x, c1)"
    by (cases "extractMapValue e first ex (clockReads w)")
  show ?thesis
  proof (cases x)
    case (Inl err)
    with ex have "extractMapValue e first ex (clockReads w) = (Inl err, c1)" by simp
    from insertObjSet_first_Inl [OF this, of rest replace] assms(1) Cons
    have "w' = w\<lparr>clockReads := c1\<rparr>" by simp
    then have "execLog w' = execLog w" by simp
    with assms(2) have False by simp
    then show ?thesis ..
  next
    case (Inr firstAttrs)
    with ex have ex': "extractMapValue e first ex (clockReads w) = (Inr firstAttrs, c1)" by simp
    obtain q c2 where rw: "rows e ex (length firstAttrs) (first # rest) ([], []) c1 = (q, c2)"
      by (cases "rows e ex (length firstAttrs) (first # rest) ([], []) c1")
    show ?thesis
    proof (cases q)
      case (Inl err)
      with rw have "rows e ex (length firstAttrs) (first # rest) ([], []) c1 = (Inl err, c2)"
        by simp
      from insertObjSet_not_built [OF ex' this, of replace] assms(1) Cons
      have "w' = w\<lparr>clockReads := c2\<rparr>" by simp
      then have "execLog w' = execLog w" by simp
      with assms(2) have False by simp
      then show ?thesis ..
    next
      case (Inr pv)
      obtain ph vars where pv: "pv = (ph, vars)" by (cases pv)
      from rw Inr pv
      have "rows e ex (length firstAttrs) (first # rest) ([], []) c1 = (Inr (ph, vars), c2)"
        by simp
      with ex' Cons show ?thesis by (intro exI conjI)
    qed
  qed
qed

declare rows.simps [simp del]

lemma extractMapValue_length:
  assumes "extractMapValue e obj ex c = (Inr m, c')" and "extractMapValue e' obj ex d = (Inr m', d')"
  shows "length m = length m'"
  using extractMapValue_same_keys [OF assms] by (metis length_map)

lemma rows_mismatch:
  assumes "\<forall>x \<in> set objs. \<exists>t fs. x = Struct t fs"
    and "obj \<in> set objs" and "extractMapValue e obj ex d = (Inr m, d')" and "length m \<noteq> n"
  shows "\<exists>c'. rows e ex n objs (ph, vars) c =
           (Inl (ErrorString ''attribute sizes are inconsistent''), c')"
  using assms(1,2)
proof (induction objs arbitrary: ph vars c)
  case Nil
  then show ?case by simp
next
  case (Cons x objs)
  from Cons.prems(1) obtain t fs where x: "x = Struct t fs" by auto
  from extractMapValue_Struct [of e t fs ex c] x
  obtain mx cx where mx: "extractMapValue e x ex c = (Inr mx, cx)" by auto
  show ?case
  proof (cases "length mx = n")
    case False
    from rows_Cons_mismatch [OF mx False] show ?thesis by blast
  next
    case True
    have "obj \<noteq> x"
    proof
      assume "obj = x"
      with assms(3) mx have "length m = length mx"
        using extractMapValue_length by blast
      with True assms(4) show False by simp
    qed
    with Cons.prems(2) have "obj \<in> set objs" by simp
    moreover from Cons.prems(1) have "\<forall>x \<in> set objs. \<exists>t fs. x = Struct t fs" by simp
    ultimately obtain c' where
      "rows e ex n objs (ph @ [placeholderGroup n], vars @ rowValues mx) cx =
         (Inl (ErrorString ''attribute sizes are inconsistent''), c')"
      using Cons.IH by blast
    with rows_Cons_Inr [OF mx True] show ?thesis by simp
  qed
qed

text \<open>
  C4: in a chunk of structs where some record's mapping has another size than the first
  record's, \<^verbatim>\<open>insertObjSet\<close> returns the error ``attribute sizes are inconsistent'' and hands
  no statement to the driver.
\<close>

theorem insertObjSet_inconsistent:
  assumes "\<forall>x \<in> set objects. \<exists>t fs. x = Struct t fs"
    and "extractMapValue e (hd objects) excludeColumns (clockReads w) = (Inr firstAttrs, c1)"
    and "obj \<in> set objects"
    and "extractMapValue e obj excludeColumns d = (Inr objAttrs, d')"
    and "length objAttrs \<noteq> length firstAttrs"
  shows "\<exists>c2. insertObjSet e w objects replace excludeColumns =
           (Some (ErrorString ''attribute sizes are inconsistent''), w\<lparr>clockReads := c2\<rparr>) \<and>
           execLog (snd (insertObjSet e w objects replace excludeColumns)) = execLog w"
proof -
  from assms(3) obtain first rest where objects: "objects = first # rest"
    by (cases objects) auto
  with assms(2) have ex: "extractMapValue e first excludeColumns (clockReads w) = (Inr firstAttrs, c1)"
    by simp
  from rows_mismatch [OF assms(1) assms(3) assms(4) assms(5)] objects
  obtain c2 where "rows e excludeColumns (length firstAttrs) (first # rest) ([], []) c1 =
      (Inl (ErrorString ''attribute sizes are inconsistent''), c2)"
    by blast
  from insertObjSet_not_built [OF ex this, of replace] objects show ?thesis
    by (intro exI [of _ c2]) simp
qed

theorem insertObjSet_inconsistent_witness:
  "extractMapValue sampleEnv (hd [person ''ann'' 30, single ''a'' 1]) [] (clockReads startWorld) =
     (Inr [(''name'', VStr ''ann''), (''age'', VInt 30)], 0) \<and>
   extractMapValue sampleEnv (single ''a'' 1) [] 0 = (Inr [(''a'', VInt 1)], 0) \<and>
   length [(''a'', VInt 1)] \<noteq> length [(''name'', VStr ''ann''), (''age'', VInt 30)] \<and>
   insertObjSet sampleEnv startWorld [person ''ann'' 30, single ''a'' 1] False [] =
     (Some (ErrorString ''attribute sizes are inconsistent''), \<lparr>clockReads = 0, execLog = []\<rparr>)"
proof -
  have h1: "\<forall>x \<in> set [person ''ann'' 30, single ''a'' 1]. \<exists>t fs. x = Struct t fs"
    by (simp add: person_def single_def)
  have h2: "extractMapValue sampleEnv (hd [person ''ann'' 30, single ''a'' 1]) []
              (clockReads startWorld) = (Inr [(''name'', VStr ''ann''), (''age'', VInt 30)], 0)"
    by (simp add: person_def run_defs)
  have h3: "single ''a'' 1 \<in> set [person ''ann'' 30, single ''a'' 1]"
    by simp
  have h4: "extractMapValue sampleEnv (single ''a'' 1) [] 0 = (Inr [(''a'', VInt 1)], 0)"
    by (simp add: single_def run_defs)
  have h5: "length [(''a'', VInt 1)] \<noteq> length [(''name'', VStr ''ann''), (''age'', VInt 30)]"
    by simp
  from insertObjSet_inconsistent [OF h1 h2 h3 h4 h5, of False] show ?thesis
    by (simp add: person_def single_def run_defs)
qed

lemma rowValues_same_keys:
  assumes "distinct (map fst m)" and "distinct (map fst m')" and "fst ` set m = fst ` set m'"
  shows "rowValues m = map (index m) (sortedKeys m')"
  using sortedKeys_same_set [OF assms] by (simp add: rowValues_def)

lemma list_all2_extract_distinct:
  "list_all2 (\<lambda>obj m. \<exists>d d'. extractMapValue e obj ex d = (Inr m, d')) objects ms \<Longrightarrow>
   \<forall>m \<in> set ms. distinct (map fst m)"
  by (induction objects ms rule: list_all2_induct) (auto dest: extractMapValue_distinct)

text \<open>
  C1, amended: for a non-empty chunk of \<open>N\<close> objects whose mappings all have size \<open>C\<close>, the
  text given to \<^verbatim>\<open>Raw\<close> lists the first mapping's \<open>C\<close> sorted keys as columns and has
  \<open>N\<close> placeholder groups of \<open>C\<close> marks each, \<open>N * C\<close> marks in all, and the parameter list
  has length \<open>N * C\<close>: the values of each mapping, in input order, each mapping in the order
  of its own sorted keys. That is the order of the first mapping's sorted keys for every
  mapping with the same keys as the first.
\<close>

theorem insertObjSet_statement:
  assumes "objects \<noteq> []"
    and "\<forall>obj \<in> set objects. \<forall>c. \<exists>m c'.
           extractMapValue e obj excludeColumns c = (Inr m, c') \<and> length m = C"
  shows "\<exists>firstAttrs c1 ms c2 SQL SQLVars.
      extractMapValue e (hd objects) excludeColumns (clockReads w) = (Inr firstAttrs, c1) \<and>
      list_all2 (\<lambda>obj m. \<exists>d d'. extractMapValue e obj excludeColumns d = (Inr m, d')) objects ms \<and>
      SQL = Raw e (statementText replace (QuotedTableName e (hd objects))
                     (map (ToColumnName e) (sortedKeys firstAttrs))
                     (replicate (length objects) (placeholderGroup C))) \<and>
      SQLVars = concat (map rowValues ms) \<and>
      insertObjSet e w objects replace excludeColumns =
        (Exec e (execLog w) SQL SQLVars,
         w\<lparr>clockReads := c2, execLog := execLog w @ [(SQL, SQLVars)]\<rparr>) \<and>
      length (sortedKeys firstAttrs) = C \<and>
      count_list (placeholderGroup C) CHR ''?'' = C \<and>
      count_list (Join (replicate (length objects) (placeholderGroup C)) '', '') CHR ''?'' =
        length objects * C \<and>
      length SQLVars = length objects * C \<and>
      (\<forall>m \<in> set ms. length (rowValues m) = C \<and>
         (fst ` set m = fst ` set firstAttrs \<longrightarrow>
            rowValues m = map (index m) (sortedKeys firstAttrs)))"
proof -
  from assms(1) obtain first rest where objects: "objects = first # rest"
    by (cases objects) auto
  from assms(2) objects obtain firstAttrs c1 where
    ex: "extractMapValue e first excludeColumns (clockReads w) = (Inr firstAttrs, c1)"
    and C: "length firstAttrs = C"
    by (metis list.set_intros(1))
  from rows_Inr_I [OF assms(2), of "[]" "[]" c1] obtain ph vars c2 where
    rw: "rows e excludeColumns C objects ([], []) c1 = (Inr (ph, vars), c2)"
    by blast
  from rows_Inr_D [OF rw] obtain ms where
    ms: "list_all2 (\<lambda>obj m. \<exists>d d'. extractMapValue e obj excludeColumns d = (Inr m, d')) objects ms"
      "\<forall>m \<in> set ms. length m = C"
      "ph = replicate (length objects) (placeholderGroup C)"
      "vars = concat (map rowValues ms)"
    by auto
  from rw objects C have
    "rows e excludeColumns (length firstAttrs) (first # rest) ([], []) c1 = (Inr (ph, vars), c2)"
    by simp
  note built = insertObjSet_built [OF ex this, of replace]
  define SQL where "SQL = Raw e (statementText replace (QuotedTableName e (hd objects))
                     (map (ToColumnName e) (sortedKeys firstAttrs))
                     (replicate (length objects) (placeholderGroup C)))"
  define SQLVars where "SQLVars = concat (map rowValues ms)"
  have f1: "extractMapValue e (hd objects) excludeColumns (clockReads w) = (Inr firstAttrs, c1)"
    using ex objects by simp
  have f5: "insertObjSet e w objects replace excludeColumns =
        (Exec e (execLog w) SQL SQLVars,
         w\<lparr>clockReads := c2, execLog := execLog w @ [(SQL, SQLVars)]\<rparr>)"
    using built unfolding SQL_def SQLVars_def ms(3) ms(4) by (simp only: objects list.sel)
  have len: "length ms = length objects"
    using ms(1) by (simp add: list_all2_lengthD)
  have d1: "distinct (map fst firstAttrs)"
    using ex by (rule extractMapValue_distinct)
  have d2: "\<forall>m \<in> set ms. distinct (map fst m)"
    using ms(1) by (rule list_all2_extract_distinct)
  have f10: "\<forall>m \<in> set ms. length (rowValues m) = C \<and>
         (fst ` set m = fst ` set firstAttrs \<longrightarrow>
            rowValues m = map (index m) (sortedKeys firstAttrs))"
    using d1 d2 ms(2) rowValues_same_keys by auto
  have f9: "length SQLVars = length objects * C"
    unfolding SQLVars_def using length_concat_rowValues [OF ms(2)] len by simp
  have f6: "length (sortedKeys firstAttrs) = C"
    using C by simp
  have f7: "count_list (placeholderGroup C) CHR ''?'' = C"
    by (rule count_placeholderGroup)
  have f8: "count_list (Join (replicate (length objects) (placeholderGroup C)) '', '') CHR ''?'' =
        length objects * C"
    by (rule count_placeholders)
  show ?thesis
    apply (rule exI [of _ firstAttrs], rule exI [of _ c1], rule exI [of _ ms], rule exI [of _ c2])
    apply (rule exI [of _ SQL], rule exI [of _ SQLVars])
    using f1 ms(1) SQL_def SQLVars_def f5 f6 f7 f8 f9 f10
    apply (intro conjI)
    apply assumption+
    done
qed

theorem insertObjSet_statement_witness:
  "[person ''ann'' 30, person ''bob'' 25] \<noteq> [] \<and>
   extractMapValue sampleEnv (person ''ann'' 30) [] 7 =
     (Inr [(''name'', VStr ''ann''), (''age'', VInt 30)], 7) \<and>
   insertObjSet sampleEnv startWorld [person ''ann'' 30, person ''bob'' 25] False [] =
     (None,
      \<lparr>clockReads = 0,
       execLog = [(''INSERT INTO `users` (age, name) VALUES (?, ?), (?, ?)'',
                   [VInt 30, VStr ''ann'', VInt 25, VStr ''bob''])]\<rparr>)"
proof -
  have h1: "[person ''ann'' 30, person ''bob'' 25] \<noteq> []"
    by simp
  have h2: "\<forall>obj \<in> set [person ''ann'' 30, person ''bob'' 25]. \<forall>c. \<exists>m c'.
              extractMapValue sampleEnv obj [] c = (Inr m, c') \<and> length m = 2"
    by (simp add: person_def run_defs)
  from insertObjSet_statement [OF h1 h2, of startWorld False] show ?thesis
    by (simp add: person_def run_defs)
qed

text \<open>
  C1, as stated, asks that each row's values follow the shared sorted-key order whenever the
  sizes agree. Two structs with one column each, \<^verbatim>\<open>a\<close> and \<^verbatim>\<open>b\<close>: the statement names
  column \<^verbatim>\<open>a\<close> only and binds 1 and 2, while reading both mappings in the order of the
  first one's keys gives 1 and nil.
\<close>

theorem shared_order_counterexample:
  "extractMapValue sampleEnv (single ''a'' 1) [] 0 = (Inr [(''a'', VInt 1)], 0) \<and>
   extractMapValue sampleEnv (single ''b'' 2) [] 0 = (Inr [(''b'', VInt 2)], 0) \<and>
   insertObjSet sampleEnv startWorld [single ''a'' 1, single ''b'' 2] False [] =
     (None,
      \<lparr>clockReads = 0,
       execLog = [(''INSERT INTO `tags` (a) VALUES (?), (?)'', [VInt 1, VInt 2])]\<rparr>) \<and>
   map (index [(''a'', VInt 1)]) (sortedKeys [(''a'', VInt 1)]) @
   map (index [(''b'', VInt 2)]) (sortedKeys [(''a'', VInt 1)]) = [VInt 1, VNil] \<and>
   snd (last (execLog (snd
     (insertObjSet sampleEnv startWorld [single ''a'' 1, single ''b'' 2] False [])))) \<noteq>
   map (index [(''a'', VInt 1)]) (sortedKeys [(''a'', VInt 1)]) @
   map (index [(''b'', VInt 2)]) (sortedKeys [(''a'', VInt 1)])"
  by (simp add: single_def run_defs)

lemma sortedKeys_sorted:
  "extractMapValue e obj ex c = (Inr m, c') \<Longrightarrow>
   sorted (sortedKeys m) \<and> distinct (sortedKeys m) \<and> set (sortedKeys m) = fst ` set m"
  using extractMapValue_distinct [of e obj ex c m c'] by (simp add: sortedKeys_def)

text \<open>
  C3, amended: whenever \<^verbatim>\<open>insertObjSet\<close> runs a statement, its column list is the first
  object's mapping alone: that mapping's keys, sorted, without repetition, each translated by
  \<^verbatim>\<open>ToColumnName\<close>. Any mapping with the same keys, whatever the environment, the clock or
  the order of the fields, gives the same column list. The values of every row are read in
  the order of that row's own sorted keys, which is the order of the columns for every row
  with the same keys as the first.
\<close>

theorem insertObjSet_columns:
  assumes "insertObjSet e w objects replace excludeColumns = (r, w')"
    and "execLog w' \<noteq> execLog w"
  shows "\<exists>firstAttrs c1 ms placeholders.
      extractMapValue e (hd objects) excludeColumns (clockReads w) = (Inr firstAttrs, c1) \<and>
      list_all2 (\<lambda>obj m. \<exists>d d'. extractMapValue e obj excludeColumns d = (Inr m, d')) objects ms \<and>
      execLog w' = execLog w @
        [(Raw e (statementText replace (QuotedTableName e (hd objects))
                   (map (ToColumnName e) (sortedKeys firstAttrs)) placeholders),
          concat (map rowValues ms))] \<and>
      sorted (sortedKeys firstAttrs) \<and> distinct (sortedKeys firstAttrs) \<and>
      set (sortedKeys firstAttrs) = fst ` set firstAttrs \<and>
      (\<forall>e' obj' excludeColumns' d attrs' d'.
         extractMapValue e' obj' excludeColumns' d = (Inr attrs', d') \<and>
         fst ` set attrs' = fst ` set firstAttrs \<longrightarrow>
         map (ToColumnName e) (sortedKeys attrs') = map (ToColumnName e) (sortedKeys firstAttrs)) \<and>
      (\<forall>m \<in> set ms. fst ` set m = fst ` set firstAttrs \<longrightarrow>
         rowValues m = map (index m) (sortedKeys firstAttrs))"
proof -
  from insertObjSet_ran [OF assms] obtain first rest firstAttrs c1 ph vars c2 where
    objects: "objects = first # rest"
    and ex: "extractMapValue e first excludeColumns (clockReads w) = (Inr firstAttrs, c1)"
    and rw: "rows e excludeColumns (length firstAttrs) (first # rest) ([], []) c1 =
               (Inr (ph, vars), c2)"
    by blast
  from rows_Inr_D [OF rw] obtain ms where
    ms: "list_all2 (\<lambda>obj m. \<exists>d d'. extractMapValue e obj excludeColumns d = (Inr m, d'))
           (first # rest) ms"
      "vars = concat (map rowValues ms)"
    by auto
  have f1: "extractMapValue e (hd objects) excludeColumns (clockReads w) = (Inr firstAttrs, c1)"
    using ex objects by simp
  have f2: "list_all2 (\<lambda>obj m. \<exists>d d'. extractMapValue e obj excludeColumns d = (Inr m, d'))
              objects ms"
    using ms(1) objects by simp
  from insertObjSet_built [OF ex rw, of replace] assms(1)
  have "w' = w\<lparr>clockReads := c2,
              execLog := execLog w @
                [(Raw e (statementText replace (QuotedTableName e first)
                    (map (ToColumnName e) (sortedKeys firstAttrs)) ph), vars)]\<rparr>"
    by (simp add: objects)
  then have f3: "execLog w' = execLog w @
        [(Raw e (statementText replace (QuotedTableName e (hd objects))
                   (map (ToColumnName e) (sortedKeys firstAttrs)) ph),
          concat (map rowValues ms))]"
    by (simp add: objects ms(2))
  have d1: "distinct (map fst firstAttrs)"
    using ex by (rule extractMapValue_distinct)
  have d2: "\<forall>m \<in> set ms. distinct (map fst m)"
    using f2 by (rule list_all2_extract_distinct)
  have f4: "sorted (sortedKeys firstAttrs)" and f5: "distinct (sortedKeys firstAttrs)"
    and f6: "set (sortedKeys firstAttrs) = fst ` set firstAttrs"
    using sortedKeys_sorted [OF ex] by simp_all
  have f7: "\<forall>e' obj' excludeColumns' d attrs' d'.
         extractMapValue e' obj' excludeColumns' d = (Inr attrs', d') \<and>
         fst ` set attrs' = fst ` set firstAttrs \<longrightarrow>
         map (ToColumnName e) (sortedKeys attrs') = map (ToColumnName e) (sortedKeys firstAttrs)"
    using d1 sortedKeys_same_set extractMapValue_distinct by metis
  have f8: "\<forall>m \<in> set ms. fst ` set m = fst ` set firstAttrs \<longrightarrow>
         rowValues m = map (index m) (sortedKeys firstAttrs)"
    using d1 d2 rowValues_same_keys by auto
  show ?thesis
    apply (rule exI [of _ firstAttrs], rule exI [of _ c1], rule exI [of _ ms], rule exI [of _ ph])
    using f1 f2 f3 f4 f5 f6 f7 f8
    apply (intro conjI)
    apply assumption+
    done
qed

theorem insertObjSet_columns_witness:
  "insertObjSet sampleEnv startWorld [person ''ann'' 30, person ''bob'' 25] True [] =
     (None,
      \<lparr>clockReads = 0,
       execLog = [(''REPLACE INTO `users` (age, name) VALUES (?, ?), (?, ?)'',
                   [VInt 30, VStr ''ann'', VInt 25, VStr ''bob''])]\<rparr>) \<and>
   execLog \<lparr>clockReads = 0,
       execLog = [(''REPLACE INTO `users` (age, name) VALUES (?, ?), (?, ?)'',
                   [VInt 30, VStr ''ann'', VInt 25, VStr ''bob''])]\<rparr> \<noteq> execLog startWorld \<and>
   sortedKeys [(''name'', VStr ''ann''), (''age'', VInt 30)] = [''age'', ''name'']"
proof -
  have h1: "insertObjSet sampleEnv startWorld [person ''ann'' 30, person ''bob'' 25] True [] =
     (None,
      \<lparr>clockReads = 0,
       execLog = [(''REPLACE INTO `users` (age, name) VALUES (?, ?), (?, ?)'',
                   [VInt 30, VStr ''ann'', VInt 25, VStr ''bob''])]\<rparr>)"
    by (simp add: person_def run_defs)
  have h2: "execLog \<lparr>clockReads = 0,
       execLog = [(''REPLACE INTO `users` (age, name) VALUES (?, ?), (?, ?)'',
                   [VInt 30, VStr ''ann'', VInt 25, VStr ''bob''])]\<rparr> \<noteq> execLog startWorld"
    by (simp add: startWorld_def)
  from insertObjSet_columns [OF h1 h2] h1 h2 show ?thesis
    by (simp add: sortedKeys_def)
qed

text \<open>
  C3, as stated, asks that every row's values be iterated in the order of the column list.
  A first struct with columns \<^verbatim>\<open>b, c\<close> and a second with \<^verbatim>\<open>a, c\<close>: the columns are
  \<^verbatim>\<open>b, c\<close>, the second row binds the values of its \<^verbatim>\<open>a\<close> and \<^verbatim>\<open>c\<close>, and reading it
  in the order of the columns would give nil and 4.
\<close>

theorem other_row_order_counterexample:
  "insertObjSet sampleEnv startWorld [pair ''b'' 1 ''c'' 2, pair ''a'' 3 ''c'' 4] False [] =
     (None,
      \<lparr>clockReads = 0,
       execLog = [(''INSERT INTO `pairs` (b, c) VALUES (?, ?), (?, ?)'',
                   [VInt 1, VInt 2, VInt 3, VInt 4])]\<rparr>) \<and>
   extractMapValue sampleEnv (pair ''b'' 1 ''c'' 2) [] 0 =
     (Inr [(''b'', VInt 1), (''c'', VInt 2)], 0) \<and>
   extractMapValue sampleEnv (pair ''a'' 3 ''c'' 4) [] 0 =
     (Inr [(''a'', VInt 3), (''c'', VInt 4)], 0) \<and>
   map (index [(''a'', VInt 3), (''c'', VInt 4)]) (sortedKeys [(''b'', VInt 1), (''c'', VInt 2)]) =
     [VNil, VInt 4] \<and>
   rowValues [(''a'', VInt 3), (''c'', VInt 4)] = [VInt 3, VInt 4]"
  by (simp add: pair_def rowValues_def run_defs)

text \<open>
  C10: a user with columns \<^verbatim>\<open>name, email\<close> and a product with columns \<^verbatim>\<open>name, price\<close>
  have mappings of the same size and different keys. \<^verbatim>\<open>insertObjSet\<close> reports no error, the
  column list \<^verbatim>\<open>email, name\<close> comes from the user alone, and the product's values are bound
  in the order of its own sorted keys \<^verbatim>\<open>name, price\<close>: its name lands under \<^verbatim>\<open>email\<close> and
  its price under \<^verbatim>\<open>name\<close>.
\<close>

theorem insertObjSet_mixed_keys:
  "extractMapValue sampleEnv (user ''ann'' ''ann.example.org'') [] 0 =
     (Inr [(''name'', VStr ''ann''), (''email'', VStr ''ann.example.org'')], 0) \<and>
   extractMapValue sampleEnv (product ''pen'' 3) [] 0 =
     (Inr [(''name'', VStr ''pen''), (''price'', VInt 3)], 0) \<and>
   insertObjSet sampleEnv startWorld [user ''ann'' ''ann.example.org'', product ''pen'' 3] False [] =
     (None,
      \<lparr>clockReads = 0,
       execLog = [(''INSERT INTO `users` (email, name) VALUES (?, ?), (?, ?)'',
                   [VStr ''ann.example.org'', VStr ''ann'', VStr ''pen'', VInt 3])]\<rparr>) \<and>
   sortedKeys [(''name'', VStr ''ann''), (''email'', VStr ''ann.example.org'')] = [''email'', ''name''] \<and>
   sortedKeys [(''name'', VStr ''pen''), (''price'', VInt 3)] = [''name'', ''price'']"
  by (simp add: user_def product_def run_defs)

section \<open>BulkInsert: properties\<close>

lemma concat_chunks: "0 < n \<Longrightarrow> concat (chunks n xs) = xs"
proof (induction n xs rule: chunks.induct)
  case (1 n xs)
  show ?case
  proof (cases "xs = []")
    case True
    then show ?thesis by (simp add: chunks.simps)
  next
    case False
    with 1 have "concat (chunks n (drop n xs)) = drop n xs" by simp
    with False 1(2) show ?thesis
      by (subst chunks.simps) simp
  qed
qed

lemma chunks_bound: "0 < n \<Longrightarrow> c \<in> set (chunks n xs) \<Longrightarrow> c \<noteq> [] \<and> length c \<le> n"
proof (induction n xs rule: chunks.induct)
  case (1 n xs)
  show ?case
  proof (cases "xs = []")
    case True
    with 1(3) show ?thesis by (simp add: chunks.simps)
  next
    case False
    from 1(3) False 1(2) have "c = take n xs \<or> c \<in> set (chunks n (drop n xs))"
      by (subst (asm) chunks.simps) auto
    then show ?thesis
    proof
      assume "c = take n xs"
      with False 1(2) show ?thesis by simp
    next
      assume "c \<in> set (chunks n (drop n xs))"
      with 1(1) [OF _ 1(2)] False 1(2) show ?thesis by simp
    qed
  qed
qed

lemma chunks_Nil: "chunks n [] = []"
  by (simp add: chunks.simps)

lemma chunks_five:
  assumes "length xs = 5"
  shows "map length (chunks 2 xs) = [2, 2, 1]"
proof -
  from assms obtain a b c d e where "xs = [a, b, c, d, e]"
    by (auto simp: length_Suc_conv eval_nat_numeral)
  then show ?thesis
    by (simp add: chunks.simps)
qed

lemma insertObjSet_at_most_one:
  "insertObjSet e w objSet replace ex = (r, w') \<Longrightarrow>
   execLog w' = execLog w \<or> (\<exists>stmt. execLog w' = execLog w @ [stmt])"
  by (auto simp: insertObjSet_def Let_def split: list.splits prod.splits sum.splits)

lemma insertObjSet_ok_one:
  "insertObjSet e w objSet replace ex = (None, w') \<Longrightarrow> objSet \<noteq> [] \<Longrightarrow>
   \<exists>stmt. execLog w' = execLog w @ [stmt]"
  by (auto simp: insertObjSet_def Let_def split: list.splits prod.splits sum.splits)

lemma insertAll_append:
  "insertAll e w (cs1 @ cs2) replace ex =
     (case insertAll e w cs1 replace ex of
        (Some err, w1) \<Rightarrow> (Some err, w1)
      | (None, w1) \<Rightarrow> insertAll e w1 cs2 replace ex)"
  by (induction cs1 arbitrary: w) (auto split: prod.splits option.splits)

lemma insertAll_stops:
  assumes "insertAll e w pre replace ex = (None, w1)"
    and "insertObjSet e w1 objSet replace ex = (Some err, w2)"
  shows "insertAll e w (pre @ objSet # post) replace ex = (Some err, w2)"
  using assms by (simp add: insertAll_append)

lemma insertAll_ok:
  "insertAll e w cs replace ex = (None, w') \<Longrightarrow> \<forall>c \<in> set cs. c \<noteq> [] \<Longrightarrow>
   \<exists>stmts. execLog w' = execLog w @ stmts \<and>
     list_all2 (\<lambda>c stmt. \<exists>w1 w2. insertObjSet e w1 c replace ex = (None, w2) \<and>
                  execLog w2 = execLog w1 @ [stmt]) cs stmts"
proof (induction cs arbitrary: w)
  case Nil
  then show ?case by simp
next
  case (Cons c cs)
  obtain r w1 where step: "insertObjSet e w c replace ex = (r, w1)"
    by (cases "insertObjSet e w c replace ex")
  with Cons.prems(1) have r: "r = None" and rest: "insertAll e w1 cs replace ex = (None, w')"
    by (auto split: option.splits)
  from Cons.prems(2) have "c \<noteq> []" by simp
  from insertObjSet_ok_one [OF step [unfolded r] this] obtain stmt where
    stmt: "execLog w1 = execLog w @ [stmt]" by blast
  from Cons.prems(2) have "\<forall>c \<in> set cs. c \<noteq> []" by simp
  from Cons.IH [OF rest this] obtain stmts where
    stmts: "execLog w' = execLog w1 @ stmts"
      "list_all2 (\<lambda>c stmt. \<exists>w1 w2. insertObjSet e w1 c replace ex = (None, w2) \<and>
                  execLog w2 = execLog w1 @ [stmt]) cs stmts"
    by blast
  have "execLog w' = execLog w @ (stmt # stmts)"
    using stmt stmts(1) by simp
  moreover have "list_all2 (\<lambda>c stmt. \<exists>w1 w2. insertObjSet e w1 c replace ex = (None, w2) \<and>
                  execLog w2 = execLog w1 @ [stmt]) (c # cs) (stmt # stmts)"
    using stmts(2) step r stmt by auto
  ultimately show ?case by blast
qed

lemma insertAll_at_most:
  "insertAll e w cs replace ex = (r, w') \<Longrightarrow>
   \<exists>stmts. execLog w' = execLog w @ stmts \<and> length stmts \<le> length cs"
proof (induction cs arbitrary: w)
  case Nil
  then show ?case by simp
next
  case (Cons c cs)
  obtain q w1 where step: "insertObjSet e w c replace ex = (q, w1)"
    by (cases "insertObjSet e w c replace ex")
  from insertObjSet_at_most_one [OF step] obtain s1 where
    s1: "execLog w1 = execLog w @ s1" "length s1 \<le> 1"
    by (metis append_Nil2 le_numeral_extra(4) length_Cons list.size(3) One_nat_def zero_le)
  show ?case
  proof (cases q)
    case None
    with step Cons.prems have "insertAll e w1 cs replace ex = (r, w')" by simp
    from Cons.IH [OF this] obtain s2 where
      "execLog w' = execLog w1 @ s2" "length s2 \<le> length cs" by blast
    with s1 have "execLog w' = execLog w @ (s1 @ s2) \<and> length (s1 @ s2) \<le> length (c # cs)"
      by simp
    then show ?thesis by blast
  next
    case (Some err)
    with step Cons.prems have "w' = w1" by simp
    with s1 have "execLog w' = execLog w @ s1 \<and> length s1 \<le> length (c # cs)" by simp
    then show ?thesis by blast
  qed
qed

text \<open>
  C5: for a positive chunk size the input is cut into chunks whose concatenation is the
  input, each non-empty and no longer than the chunk size; 5 records with chunk size 2 give
  chunks of sizes 2, 2, 1. No call runs more statements than there are chunks, and a call
  that returns nil has run exactly one statement per chunk, in the order of the chunks, each
  the statement of its chunk.
\<close>

theorem BulkInsert_chunks:
  assumes "0 < chunkSize"
  shows "\<exists>objSets. splitObjects objs chunkSize = Some objSets \<and>
      concat objSets = objs \<and>
      (\<forall>objSet \<in> set objSets. objSet \<noteq> [] \<and> int (length objSet) \<le> chunkSize) \<and>
      (length objs = 5 \<and> chunkSize = 2 \<longrightarrow> map length objSets = [2, 2, 1]) \<and>
      (\<forall>w'. BulkInsert e w (Slice objs) chunkSize replace excludeColumns = Some (None, w') \<longrightarrow>
         (\<exists>stmts. execLog w' = execLog w @ stmts \<and>
            list_all2 (\<lambda>objSet stmt. \<exists>w1 w2.
                insertObjSet e w1 objSet replace excludeColumns = (None, w2) \<and>
                execLog w2 = execLog w1 @ [stmt]) objSets stmts)) \<and>
      (\<forall>r w'. BulkInsert e w (Slice objs) chunkSize replace excludeColumns = Some (r, w') \<longrightarrow>
         (\<exists>stmts. execLog w' = execLog w @ stmts \<and> length stmts \<le> length objSets))"
proof -
  let ?cs = "chunks (nat chunkSize) objs"
  from assms have n: "0 < nat chunkSize" by simp
  have f1: "splitObjects objs chunkSize = Some ?cs"
    using assms by (simp add: splitObjects_def)
  have f2: "concat ?cs = objs"
    using n by (rule concat_chunks)
  have f3: "\<forall>objSet \<in> set ?cs. objSet \<noteq> [] \<and> int (length objSet) \<le> chunkSize"
    using chunks_bound [OF n] assms by fastforce
  have f4: "length objs = 5 \<and> chunkSize = 2 \<longrightarrow> map length ?cs = [2, 2, 1]"
    using chunks_five [of objs] by auto
  have f5: "\<forall>w'. BulkInsert e w (Slice objs) chunkSize replace excludeColumns = Some (None, w') \<longrightarrow>
         (\<exists>stmts. execLog w' = execLog w @ stmts \<and>
            list_all2 (\<lambda>objSet stmt. \<exists>w1 w2.
                insertObjSet e w1 objSet replace excludeColumns = (None, w2) \<and>
                execLog w2 = execLog w1 @ [stmt]) ?cs stmts)"
  proof (intro allI impI)
    fix w'
    assume "BulkInsert e w (Slice objs) chunkSize replace excludeColumns = Some (None, w')"
    with f1 have "insertAll e w ?cs replace excludeColumns = (None, w')"
      by (simp add: BulkInsert_def)
    moreover from f3 have "\<forall>c \<in> set ?cs. c \<noteq> []" by simp
    ultimately show "\<exists>stmts. execLog w' = execLog w @ stmts \<and>
            list_all2 (\<lambda>objSet stmt. \<exists>w1 w2.
                insertObjSet e w1 objSet replace excludeColumns = (None, w2) \<and>
                execLog w2 = execLog w1 @ [stmt]) ?cs stmts"
      by (rule insertAll_ok)
  qed
  have f6: "\<forall>r w'. BulkInsert e w (Slice objs) chunkSize replace excludeColumns = Some (r, w') \<longrightarrow>
         (\<exists>stmts. execLog w' = execLog w @ stmts \<and> length stmts \<le> length ?cs)"
  proof (intro allI impI)
    fix r w'
    assume "BulkInsert e w (Slice objs) chunkSize replace excludeColumns = Some (r, w')"
    with f1 have "insertAll e w ?cs replace excludeColumns = (r, w')"
      by (simp add: BulkInsert_def)
    then show "\<exists>stmts. execLog w' = execLog w @ stmts \<and> length stmts \<le> length ?cs"
      by (rule insertAll_at_most)
  qed
  show ?thesis
    apply (rule exI [of _ ?cs])
    using f1 f2 f3 f4 f5 f6
    apply (intro conjI)
    apply assumption+
    done
qed

theorem BulkInsert_chunks_witness:
  "(0::int) < 2 \<and>
   splitObjects fivePeople 2 =
     Some [[person ''ann'' 30, person ''bob'' 25], [person ''cy'' 41, person ''di'' 19],
           [person ''ed'' 52]] \<and>
   BulkInsert sampleEnv startWorld (Slice fivePeople) 2 False [] =
     Some (None,
       \<lparr>clockReads = 0,
        execLog =
          [(''INSERT INTO `users` (age, name) VALUES (?, ?), (?, ?)'',
            [VInt 30, VStr ''ann'', VInt 25, VStr ''bob'']),
           (''INSERT INTO `users` (age, name) VALUES (?, ?), (?, ?)'',
            [VInt 41, VStr ''cy'', VInt 19, VStr ''di'']),
           (''INSERT INTO `users` (age, name) VALUES (?, ?)'',
            [VInt 52, VStr ''ed''])]\<rparr>)"
proof -
  have h: "(0::int) < 2" by simp
  from BulkInsert_chunks [OF h, of fivePeople sampleEnv startWorld False "[]"] show ?thesis
    by (simp add: BulkInsert_def splitObjects_def chunks.simps fivePeople_def person_def run_defs)
qed

text \<open>
  C9: when the chunks before one have been inserted without error and that one returns an
  error, \<^verbatim>\<open>BulkInsert\<close> returns this error in the world that chunk left: nothing of a later
  chunk is extracted or run. Inserting a list of chunks is inserting a first part and then,
  unless that returned an error, the rest. For the empty slice nothing is run and nil is
  returned.
\<close>

theorem BulkInsert_stops:
  "(splitObjects objs chunkSize = Some (pre @ objSet # post) \<and>
    insertAll e w pre replace excludeColumns = (None, w1) \<and>
    insertObjSet e w1 objSet replace excludeColumns = (Some err, w2) \<longrightarrow>
      BulkInsert e w (Slice objs) chunkSize replace excludeColumns = Some (Some err, w2)) \<and>
   insertAll e w (objSets1 @ objSets2) replace excludeColumns =
     (case insertAll e w objSets1 replace excludeColumns of
        (Some err, w') \<Rightarrow> (Some err, w')
      | (None, w') \<Rightarrow> insertAll e w' objSets2 replace excludeColumns) \<and>
   (0 < chunkSize \<longrightarrow>
      BulkInsert e w (Slice []) chunkSize replace excludeColumns = Some (None, w))"
  by (auto simp: BulkInsert_def insertAll_stops insertAll_append [symmetric] splitObjects_def chunks_Nil)

theorem BulkInsert_stops_witness:
  "splitObjects fivePeople 2 =
     Some ([[person ''ann'' 30, person ''bob'' 25]] @ [person ''cy'' 41, person ''di'' 19] #
           [[person ''ed'' 52]]) \<and>
   insertAll flakyEnv startWorld [[person ''ann'' 30, person ''bob'' 25]] False [] =
     (None,
      \<lparr>clockReads = 0,
       execLog = [(''INSERT INTO `users` (age, name) VALUES (?, ?), (?, ?)'',
                   [VInt 30, VStr ''ann'', VInt 25, VStr ''bob''])]\<rparr>) \<and>
   BulkInsert flakyEnv startWorld (Slice fivePeople) 2 False [] =
     Some (Some (ErrorString ''driver: bad connection''),
       \<lparr>clockReads = 0,
        execLog =
          [(''INSERT INTO `users` (age, name) VALUES (?, ?), (?, ?)'',
            [VInt 30, VStr ''ann'', VInt 25, VStr ''bob'']),
           (''INSERT INTO `users` (age, name) VALUES (?, ?), (?, ?)'',
            [VInt 41, VStr ''cy'', VInt 19, VStr ''di''])]\<rparr>) \<and>
   (0::int) < 2 \<and>
   BulkInsert flakyEnv startWorld (Slice []) 2 False [] = Some (None, startWorld)"
proof -
  have h1: "splitObjects fivePeople 2 =
     Some ([[person ''ann'' 30, person ''bob'' 25]] @ [person ''cy'' 41, person ''di'' 19] #
           [[person ''ed'' 52]])"
    by (simp add: splitObjects_def chunks.simps fivePeople_def)
  have h2: "insertAll flakyEnv startWorld [[person ''ann'' 30, person ''bob'' 25]] False [] =
     (None,
      \<lparr>clockReads = 0,
       execLog = [(''INSERT INTO `users` (age, name) VALUES (?, ?), (?, ?)'',
                   [VInt 30, VStr ''ann'', VInt 25, VStr ''bob''])]\<rparr>)"
    by (simp add: person_def flakyEnv_def execOnce_def run_defs)
  have h3: "insertObjSet flakyEnv
      \<lparr>clockReads = 0,
       execLog = [(''INSERT INTO `users` (age, name) VALUES (?, ?), (?, ?)'',
                   [VInt 30, VStr ''ann'', VInt 25, VStr ''bob''])]\<rparr>
      [person ''cy'' 41, person ''di'' 19] False [] =
     (Some (ErrorString ''driver: bad connection''),
       \<lparr>clockReads = 0,
        execLog =
          [(''INSERT INTO `users` (age, name) VALUES (?, ?), (?, ?)'',
            [VInt 30, VStr ''ann'', VInt 25, VStr ''bob'']),
           (''INSERT INTO `users` (age, name) VALUES (?, ?), (?, ?)'',
            [VInt 41, VStr ''cy'', VInt 19, VStr ''di''])]\<rparr>)"
    by (simp add: person_def flakyEnv_def execOnce_def run_defs)
  from BulkInsert_stops [of fivePeople 2 "[[person ''ann'' 30, person ''bob'' 25]]"
      "[person ''cy'' 41, person ''di'' 19]" "[[person ''ed'' 52]]" flakyEnv startWorld False "[]"
      _ _ _ "[]" "[]"] h1 h2 h3
  show ?thesis
    by simp
qed

section \<open>The transaction guard: properties\<close>

lemma rollbacks_gormCall:
  "rollbacks (gormCall drv k s) = rollbacks s + (if k = RollbackCall then 1 else 0)"
  by (simp add: rollbacks_def gormCall_def)









text \<open>
  C7: when the session's \<^verbatim>\<open>Error\<close> field is set after the commit was issued,
  \<^verbatim>\<open>Commit(true)\<close> returns that error and does not panic, \<open>committed\<close> keeps its value, and
  on a guard that was not committed a following \<^verbatim>\<open>End()\<close> issues a rollback; when the
  field is nil, \<^verbatim>\<open>Commit\<close> sets \<open>committed\<close> and returns nil.
\<close>

theorem Commit_noPanic:
  "(Error (gormCall drv CommitCall (DB tx)) = Some err \<longrightarrow>
      Commit drv tx (True # rest) =
        (Return (Some err), tx\<lparr>DB := gormCall drv CommitCall (DB tx)\<rparr>) \<and>
      committed (snd (Commit drv tx (True # rest))) = committed tx \<and>
      (\<not> committed tx \<longrightarrow>
         rollbacks (DB (End drv (snd (Commit drv tx (True # rest))))) =
           rollbacks (DB tx) + 1)) \<and>
   (Error (gormCall drv CommitCall (DB tx)) = None \<longrightarrow>
      Commit drv tx noPanic =
        (Return None, tx\<lparr>DB := gormCall drv CommitCall (DB tx), committed := True\<rparr>))"
  by (auto simp: Commit_def Let_def End_def rollbacks_gormCall)

theorem Commit_noPanic_witness:
  "Error (gormCall failingDriver CommitCall (DB (Begin failingDriver freshSession))) =
     Some (ErrorString ''driver: bad connection'') \<and>
   Commit failingDriver (Begin failingDriver freshSession) [True] =
     (Return (Some (ErrorString ''driver: bad connection'')),
      \<lparr>DB = \<lparr>calls = [BeginCall, CommitCall],
             Error = Some (ErrorString ''driver: bad connection'')\<rparr>,
       committed = False\<rparr>) \<and>
   rollbacks (DB (End failingDriver
     (snd (Commit failingDriver (Begin failingDriver freshSession) [True])))) = 1 \<and>
   Error (gormCall quietDriver CommitCall (DB (Begin quietDriver freshSession))) = None \<and>
   committed (snd (Commit quietDriver (Begin quietDriver freshSession) []))"
  using
    Commit_noPanic [of failingDriver "Begin failingDriver freshSession"
      "ErrorString ''driver: bad connection''" "[]" "[]"]
    Commit_noPanic [of quietDriver "Begin quietDriver freshSession"
      "ErrorString ''driver: bad connection''" "[]" "[]"]
  by (simp add: Begin_def End_def gormCall_def quietDriver_def failingDriver_def
        freshSession_def rollbacks_def)

section \<open>The pre-create hook: properties\<close>

text \<open>
  C8, as stated: on a table that is not a soft-delete table, the identifier is assigned
  exactly when there is a primary-key field and it is blank. The hook also asks that the
  field's name or column name be \<^verbatim>\<open>ID\<close>: a blank primary key named \<^verbatim>\<open>Key\<close> gets nothing.
\<close>

theorem blank_key_not_ID_counterexample:
  "\<not> HasSuffix (TableName (tableOf ''user'' keyField)) ''deleted'' \<and>
   PrimaryField (tableOf ''user'' keyField) = Some keyField \<and> IsBlank keyField \<and>
   beforeCreateCallback ''9m4e2mr0ui3e8a215n4g'' (VTime 0) (tableOf ''user'' keyField) = []"
  by (simp add: tableOf_def keyField_def beforeCreateCallback_def HasSuffix_def)

text \<open>
  C8, amended: on a table whose name does not end in \<^verbatim>\<open>deleted\<close>, the hook sets column
  \<^verbatim>\<open>ID\<close> to the fresh identifier exactly when there is a primary-key field, its name or
  its column name is \<^verbatim>\<open>ID\<close>, and it is blank; otherwise the hook sets nothing, in
  particular when the primary key is not blank.
\<close>

theorem beforeCreateCallback_ID:
  assumes "\<not> HasSuffix (TableName sc) ''deleted''"
  shows "(beforeCreateCallback xid now sc = [SetColumn ''ID'' (VStr xid)] \<longleftrightarrow>
           (\<exists>pf. PrimaryField sc = Some pf \<and> (Name pf = ''ID'' \<or> DBName pf = ''ID'') \<and>
                 IsBlank pf)) \<and>
         (beforeCreateCallback xid now sc \<noteq> [SetColumn ''ID'' (VStr xid)] \<longrightarrow>
            beforeCreateCallback xid now sc = []) \<and>
         ((\<forall>pf. PrimaryField sc = Some pf \<longrightarrow> \<not> IsBlank pf) \<longrightarrow>
            beforeCreateCallback xid now sc = [])"
  using assms by (auto simp: beforeCreateCallback_def split: option.splits)

theorem beforeCreateCallback_ID_witness:
  "\<not> HasSuffix (TableName (tableOf ''user'' (idField []))) ''deleted'' \<and>
   beforeCreateCallback ''9m4e2mr0ui3e8a215n4g'' (VTime 0) (tableOf ''user'' (idField [])) =
     [SetColumn ''ID'' (VStr ''9m4e2mr0ui3e8a215n4g'')] \<and>
   \<not> HasSuffix (TableName (tableOf ''user'' (idField ''abc''))) ''deleted'' \<and>
   PrimaryField (tableOf ''user'' (idField ''abc'')) = Some (idField ''abc'') \<and>
   \<not> IsBlank (idField ''abc'') \<and>
   beforeCreateCallback ''9m4e2mr0ui3e8a215n4g'' (VTime 0) (tableOf ''user'' (idField ''abc'')) = []"
proof -
  have a: "\<not> HasSuffix (TableName (tableOf ''user'' (idField []))) ''deleted''"
    by (simp add: tableOf_def HasSuffix_def)
  have b: "\<not> HasSuffix (TableName (tableOf ''user'' (idField ''abc''))) ''deleted''"
    by (simp add: tableOf_def HasSuffix_def)
  have c: "PrimaryField (tableOf ''user'' (idField ''abc'')) = Some (idField ''abc'') \<and>
           \<not> IsBlank (idField ''abc'')"
    by (simp add: tableOf_def idField_def)
  have d: "\<exists>pf. PrimaryField (tableOf ''user'' (idField [])) = Some pf \<and>
             (Name pf = ''ID'' \<or> DBName pf = ''ID'') \<and> IsBlank pf"
    by (simp add: tableOf_def idField_def)
  show ?thesis
    using a b c d
      beforeCreateCallback_ID [OF a, of "''9m4e2mr0ui3e8a215n4g''" "VTime 0"]
      beforeCreateCallback_ID [OF b, of "''9m4e2mr0ui3e8a215n4g''" "VTime 0"]
    by auto
qed

end
